theory Spec2Isabelle
  imports Main "HOL-Library.Sublist"
begin

section \<open>The issue synchronizer of sync_issues.py\<close>

text \<open>
  The script mirrors the open issues of an upstream repository into a fork. It is a
  straight-line program around one loop, and everything it does goes through calls on two
  repository handles of an API client library. The embedding keeps the script's shape: the
  two repositories are part of an explicit world that is passed along, every call on a
  handle is a step that is recorded in a call log and may raise, and the loop is a
  recursion over the list of upstream issues.
\<close>

subsection \<open>Configuration\<close>

definition UPSTREAM_REPO :: string where
  "UPSTREAM_REPO = ''ssc-spc-ccoe-cei/azure-guardrails-solution-accelerator''"

definition FORK_REPO :: string where
  "FORK_REPO = ''adamga/azure-guardrails-solution-accelerator''"

definition LABEL_PREFIX :: string where
  "LABEL_PREFIX = ''[Upstream]''"

subsection \<open>Data\<close>

datatype issue_state = Open | Closed

text \<open>An issue of the upstream repository. Its body may be null (Python's None).\<close>

record src_issue =
  title :: string
  body :: "string option"
  html_url :: string
  src_state :: issue_state

text \<open>An issue of the fork.\<close>

record fork_issue =
  f_title :: string
  f_body :: "string option"
  f_labels :: "string list"
  f_state :: issue_state

text \<open>The keyword arguments of one \<^verbatim>\<open>fork.create_issue(title=, body=, labels=)\<close>.\<close>

record create_request =
  r_title :: string
  r_body :: string
  r_labels :: "string list"

datatype repo_handle = Upstream | Fork

datatype state_filter = StOpen | StClosed | StAll

text \<open>The calls the script makes on the API client, with their arguments.\<close>

datatype api_call =
    GetRepo string
  | GetIssues repo_handle state_filter "string list"
  | GetLabels repo_handle
  | CreateIssue repo_handle create_request

text \<open>
  The faults the client library may raise. The script has no handler, so the embedding
  needs no more of an error than its identity.
\<close>

datatype error = BadCredentials | UnknownObject | RateLimitExceeded | NetworkFailure

text \<open>
  The world: the issues of the upstream repository, the issues and the label names of the
  fork, the calls made so far and the lines printed so far.
\<close>

record world =
  upstream_repo_issues :: "src_issue list"
  fork_issues :: "fork_issue list"
  fork_label_names :: "string list"
  call_log :: "api_call list"
  stdout :: "string list"

text \<open>
  Which calls fail is given from outside: a fault plan says, for the n-th call of the
  process (counted from 0), whether it raises and what.
\<close>

type_synonym fault_plan = "nat \<Rightarrow> error option"

definition no_fault :: fault_plan where
  "no_fault = (\<lambda>n. None)"

subsection \<open>The API client\<close>

text \<open>
  The client library is not part of the repository. Its calls are modelled after the
  interface the script uses: a call is logged when it is made, raises when the fault plan
  says so, and otherwise answers from the world. A listing with \<^verbatim>\<open>state="all"\<close>
  returns issues of either state, and a listing with labels returns the issues that carry
  every one of them.
\<close>

definition call :: "fault_plan \<Rightarrow> api_call \<Rightarrow> world \<Rightarrow> error option \<times> world" where
  "call fault c w = (fault (length (call_log w)), w\<lparr>call_log := call_log w @ [c]\<rparr>)"

fun state_matches :: "state_filter \<Rightarrow> issue_state \<Rightarrow> bool" where
  "state_matches StAll s = True"
| "state_matches StOpen s = (s = Open)"
| "state_matches StClosed s = (s = Closed)"

definition upstream_get_issues ::
  "fault_plan \<Rightarrow> state_filter \<Rightarrow> world \<Rightarrow> (error + src_issue list) \<times> world" where
  "upstream_get_issues fault st w =
     (case call fault (GetIssues Upstream st []) w of
        (Some e, w') \<Rightarrow> (Inl e, w')
      | (None, w') \<Rightarrow>
          (Inr (filter (\<lambda>i. state_matches st (src_state i)) (upstream_repo_issues w')), w'))"

definition select_issues :: "state_filter \<Rightarrow> string list \<Rightarrow> fork_issue list \<Rightarrow> fork_issue list" where
  "select_issues st ls is =
     filter (\<lambda>i. state_matches st (f_state i) \<and> list_all (\<lambda>l. l \<in> set (f_labels i)) ls) is"

definition fork_get_issues ::
  "fault_plan \<Rightarrow> state_filter \<Rightarrow> string list \<Rightarrow> world \<Rightarrow> (error + fork_issue list) \<times> world" where
  "fork_get_issues fault st ls w =
     (case call fault (GetIssues Fork st ls) w of
        (Some e, w') \<Rightarrow> (Inl e, w')
      | (None, w') \<Rightarrow> (Inr (select_issues st ls (fork_issues w')), w'))"

definition fork_get_labels :: "fault_plan \<Rightarrow> world \<Rightarrow> (error + string list) \<times> world" where
  "fork_get_labels fault w =
     (case call fault (GetLabels Fork) w of
        (Some e, w') \<Rightarrow> (Inl e, w')
      | (None, w') \<Rightarrow> (Inr (fork_label_names w'), w'))"

definition fork_create_issue ::
  "fault_plan \<Rightarrow> string \<Rightarrow> string \<Rightarrow> string list \<Rightarrow> world \<Rightarrow> (error + fork_issue) \<times> world" where
  "fork_create_issue fault t b ls w =
     (case call fault (CreateIssue Fork \<lparr>r_title = t, r_body = b, r_labels = ls\<rparr>) w of
        (Some e, w') \<Rightarrow> (Inl e, w')
      | (None, w') \<Rightarrow>
          (let i = \<lparr>f_title = t, f_body = Some b, f_labels = ls, f_state = Open\<rparr>
           in (Inr i, w'\<lparr>fork_issues := fork_issues w' @ [i]\<rparr>)))"

subsection \<open>The script\<close>

text \<open>What an f-string makes of a value that may be None.\<close>

fun format_opt :: "string option \<Rightarrow> string" where
  "format_opt None = ''None''"
| "format_opt (Some s) = s"

text \<open>
  The loop over the upstream issues. An iteration lists the fork's issues labelled
  \<^verbatim>\<open>LABEL_PREFIX\<close>, continues with the next issue when one of them has the title of the
  upstream issue, and otherwise lists the fork's labels and creates the issue. An error of
  a call leaves the loop with that error.
\<close>

fun sync_loop :: "fault_plan \<Rightarrow> src_issue list \<Rightarrow> world \<Rightarrow> error option \<times> world" where
  "sync_loop fault [] w = (None, w)"
| "sync_loop fault (issue # rest) w =
     (case fork_get_issues fault StAll [LABEL_PREFIX] w of
        (Inl e, w1) \<Rightarrow> (Some e, w1)
      | (Inr existing, w1) \<Rightarrow>
          if list_ex (\<lambda>i. f_title i = title issue) existing then sync_loop fault rest w1
          else
            (case fork_get_labels fault w1 of
               (Inl e, w2) \<Rightarrow> (Some e, w2)
             | (Inr available_labels, w2) \<Rightarrow>
                 (let labels_to_apply =
                        (if ''triage'' \<in> set available_labels then [] @ [''triage''] else [])
                  in case fork_create_issue fault
                            (LABEL_PREFIX @ '' '' @ title issue)
                            (''**Original Issue:** '' @ html_url issue @ [CHR 0x0A, CHR 0x0A]
                               @ format_opt (body issue))
                            labels_to_apply w2 of
                       (Inl e, w3) \<Rightarrow> (Some e, w3)
                     | (Inr created, w3) \<Rightarrow> sync_loop fault rest w3)))"

text \<open>
  The whole script: the two repository handles, the open issues of upstream, the loop and
  the closing message. The result is the error that ended the run, if any, and the world
  the run leaves.
\<close>

definition main :: "fault_plan \<Rightarrow> world \<Rightarrow> error option \<times> world" where
  "main fault w0 =
     (case call fault (GetRepo UPSTREAM_REPO) w0 of
        (Some e, w1) \<Rightarrow> (Some e, w1)
      | (None, w1) \<Rightarrow>
          (case call fault (GetRepo FORK_REPO) w1 of
             (Some e, w2) \<Rightarrow> (Some e, w2)
           | (None, w2) \<Rightarrow>
               (case upstream_get_issues fault StOpen w2 of
                  (Inl e, w3) \<Rightarrow> (Some e, w3)
                | (Inr upstream_issues, w3) \<Rightarrow>
                    (case sync_loop fault upstream_issues w3 of
                       (Some e, w4) \<Rightarrow> (Some e, w4)
                     | (None, w4) \<Rightarrow>
                         (None, w4\<lparr>stdout := stdout w4 @ [''Issues synced successfully.'']\<rparr>)))))"

subsection \<open>What a run is observed by\<close>

text \<open>The calls one run makes, in order: what it appends to the call log.\<close>

definition calls_made :: "fault_plan \<Rightarrow> world \<Rightarrow> api_call list" where
  "calls_made fault w = drop (length (call_log w)) (call_log (snd (main fault w)))"

text \<open>The creation requests among a sequence of calls.\<close>

fun creation_requests :: "api_call list \<Rightarrow> create_request list" where
  "creation_requests [] = []"
| "creation_requests (CreateIssue h r # cs) = r # creation_requests cs"
| "creation_requests (c # cs) = creation_requests cs"

definition emitted :: "fault_plan \<Rightarrow> world \<Rightarrow> create_request list" where
  "emitted fault w = creation_requests (calls_made fault w)"

text \<open>The source issues of a run are the open issues of upstream.\<close>

definition source_issues :: "world \<Rightarrow> src_issue list" where
  "source_issues w = filter (\<lambda>i. src_state i = Open) (upstream_repo_issues w)"

text \<open>The existing tagged issues are what the listing of the duplicate check returns.\<close>

definition existing_tagged :: "world \<Rightarrow> fork_issue list" where
  "existing_tagged w = select_issues StAll [LABEL_PREFIX] (fork_issues w)"

definition already_synced :: "world \<Rightarrow> src_issue \<Rightarrow> bool" where
  "already_synced w issue = list_ex (\<lambda>i. f_title i = title issue) (existing_tagged w)"

text \<open>How often a call occurs in a sequence of calls.\<close>

definition times_called :: "api_call \<Rightarrow> api_call list \<Rightarrow> nat" where
  "times_called c cs = length (filter (\<lambda>d. d = c) cs)"

subsection \<open>The calls a run is made of\<close>

text \<open>
  The request an iteration makes for an upstream issue, given the label names of the fork.
\<close>

definition request_for :: "string list \<Rightarrow> src_issue \<Rightarrow> create_request" where
  "request_for names issue =
     \<lparr>r_title = LABEL_PREFIX @ '' '' @ title issue,
      r_body = ''**Original Issue:** '' @ html_url issue @ [CHR 0x0A, CHR 0x0A] @ format_opt (body issue),
      r_labels = (if ''triage'' \<in> set names then [''triage''] else [])\<rparr>"

text \<open>
  The calls of one iteration that no fault interrupts, given the tagged issues and the label
  names of the fork: the listing alone when the issue is skipped, otherwise the listing, the
  labels and the creation.
\<close>

definition iteration_calls :: "fork_issue list \<Rightarrow> string list \<Rightarrow> src_issue \<Rightarrow> api_call list" where
  "iteration_calls tagged names issue =
     (if list_ex (\<lambda>i. f_title i = title issue) tagged
      then [GetIssues Fork StAll [LABEL_PREFIX]]
      else [GetIssues Fork StAll [LABEL_PREFIX], GetLabels Fork,
            CreateIssue Fork (request_for names issue)])"

definition loop_calls :: "fork_issue list \<Rightarrow> string list \<Rightarrow> src_issue list \<Rightarrow> api_call list" where
  "loop_calls tagged names xs = concat (map (iteration_calls tagged names) xs)"

text \<open>
  Making a sequence of calls under a fault plan, from the n-th call of the process on: the
  calls up to and including the first one that raises, and its error.
\<close>

fun perform :: "fault_plan \<Rightarrow> nat \<Rightarrow> api_call list \<Rightarrow> api_call list \<times> error option" where
  "perform fault n [] = ([], None)"
| "perform fault n (c # cs) =
     (case fault n of
        Some e \<Rightarrow> ([c], Some e)
      | None \<Rightarrow> (case perform fault (Suc n) cs of (ds, r) \<Rightarrow> (c # ds, r)))"

definition main_calls :: "world \<Rightarrow> api_call list" where
  "main_calls w =
     [GetRepo UPSTREAM_REPO, GetRepo FORK_REPO, GetIssues Upstream StOpen []]
     @ loop_calls (existing_tagged w) (fork_label_names w) (source_issues w)"


subsection \<open>Sample repositories\<close>

definition bug_a :: src_issue where
  "bug_a = \<lparr>title = ''Bug A'', body = Some ''It crashes.'',
             html_url = ''https://github.com/ssc-spc-ccoe-cei/azure-guardrails-solution-accelerator/issues/1'',
             src_state = Open\<rparr>"

definition bug_b :: src_issue where
  "bug_b = \<lparr>title = ''Bug B'', body = None,
             html_url = ''https://github.com/ssc-spc-ccoe-cei/azure-guardrails-solution-accelerator/issues/2'',
             src_state = Open\<rparr>"

definition old_bug :: src_issue where
  "old_bug = \<lparr>title = ''Old bug'', body = Some ''Fixed.'',
               html_url = ''https://github.com/ssc-spc-ccoe-cei/azure-guardrails-solution-accelerator/issues/0'',
               src_state = Closed\<rparr>"

definition tagged_copy :: "string \<Rightarrow> issue_state \<Rightarrow> fork_issue" where
  "tagged_copy t s = \<lparr>f_title = t, f_body = None, f_labels = [''[Upstream]''], f_state = s\<rparr>"

definition repo_with :: "src_issue list \<Rightarrow> fork_issue list \<Rightarrow> string list \<Rightarrow> world" where
  "repo_with srcs forks names =
     \<lparr>upstream_repo_issues = srcs, fork_issues = forks, fork_label_names = names,
      call_log = [], stdout = []\<rparr>"

text \<open>A fault plan with one fault: the k-th call raises e.\<close>

definition fault_at :: "nat \<Rightarrow> error \<Rightarrow> fault_plan" where
  "fault_at k e = (\<lambda>n. if n = k then Some e else None)"

section \<open>The run as a sequence of calls\<close>

text \<open>
  Creating an issue does not change what the duplicate check lists: the issue gets the
  label triage or none, never the marker label.
\<close>

lemma existing_tagged_log [simp]:
  "existing_tagged (w\<lparr>call_log := l\<rparr>) = existing_tagged w"
  by (simp add: existing_tagged_def)

lemma existing_tagged_stdout [simp]:
  "existing_tagged (w\<lparr>stdout := l\<rparr>) = existing_tagged w"
  by (simp add: existing_tagged_def)

lemma existing_tagged_created [simp]:
  "LABEL_PREFIX \<notin> set (f_labels i) \<Longrightarrow>
   existing_tagged (w\<lparr>fork_issues := fork_issues w @ [i]\<rparr>) = existing_tagged w"
  by (simp add: existing_tagged_def select_issues_def)

lemma triage_not_marker [simp]: "LABEL_PREFIX \<noteq> ''triage''"
  by (simp add: LABEL_PREFIX_def)

text \<open>
  The loop makes the calls of its iterations up to the first fault and returns that fault.
  It leaves the tagged issues, the label names, the upstream issues and the output as they
  were.
\<close>

lemma sync_loop_run:
  "fst (sync_loop fault xs w) =
     snd (perform fault (length (call_log w)) (loop_calls (existing_tagged w) (fork_label_names w) xs))
   \<and> call_log (snd (sync_loop fault xs w)) =
     call_log w @ fst (perform fault (length (call_log w)) (loop_calls (existing_tagged w) (fork_label_names w) xs))
   \<and> existing_tagged (snd (sync_loop fault xs w)) = existing_tagged w
   \<and> fork_label_names (snd (sync_loop fault xs w)) = fork_label_names w
   \<and> upstream_repo_issues (snd (sync_loop fault xs w)) = upstream_repo_issues w
   \<and> stdout (snd (sync_loop fault xs w)) = stdout w"
proof (induction xs arbitrary: w)
  case Nil
  show ?case by (simp add: loop_calls_def)
next
  case (Cons x xs)
  let ?n = "length (call_log w)"
  let ?g = "GetIssues Fork StAll [LABEL_PREFIX]"
  show ?case
  proof (cases "fault ?n")
    case (Some e)
    then show ?thesis
      by (simp add: loop_calls_def iteration_calls_def fork_get_issues_def call_def)
  next
    case None
    note f0 = None
    have sel: "select_issues StAll [LABEL_PREFIX] (fork_issues w) = existing_tagged w"
      by (simp add: existing_tagged_def)
    show ?thesis
    proof (cases "list_ex (\<lambda>i. f_title i = title x) (existing_tagged w)")
      case True
      let ?w1 = "w\<lparr>call_log := call_log w @ [?g]\<rparr>"
      have step: "sync_loop fault (x # xs) w = sync_loop fault xs ?w1"
        using f0 True by (simp add: fork_get_issues_def call_def sel)
      have calls: "loop_calls (existing_tagged w) (fork_label_names w) (x # xs) =
                   ?g # loop_calls (existing_tagged w) (fork_label_names w) xs"
        using True by (simp add: loop_calls_def iteration_calls_def)
      show ?thesis
        using Cons.IH [of ?w1] f0 unfolding step calls
        by (simp add: split_beta)
    next
      case False
      note new = False
      let ?l = "GetLabels Fork"
      let ?r = "request_for (fork_label_names w) x"
      let ?c = "CreateIssue Fork ?r"
      have calls: "loop_calls (existing_tagged w) (fork_label_names w) (x # xs) =
                   ?g # ?l # ?c # loop_calls (existing_tagged w) (fork_label_names w) xs"
        using new by (simp add: loop_calls_def iteration_calls_def)
      show ?thesis
      proof (cases "fault (Suc ?n)")
        case (Some e)
        then show ?thesis
          using f0 new unfolding calls
          by (simp add: fork_get_issues_def fork_get_labels_def call_def sel)
      next
        case None
        note f1 = None
        show ?thesis
        proof (cases "fault (Suc (Suc ?n))")
          case (Some e)
          then show ?thesis
            using f0 f1 new unfolding calls
            by (simp add: fork_get_issues_def fork_get_labels_def fork_create_issue_def
                  call_def sel request_for_def Let_def)
        next
          case None
          note f2 = None
          let ?i = "\<lparr>f_title = r_title ?r, f_body = Some (r_body ?r),
                     f_labels = r_labels ?r, f_state = Open\<rparr>"
          let ?w3 = "w\<lparr>call_log := call_log w @ [?g, ?l, ?c],
                       fork_issues := fork_issues w @ [?i]\<rparr>"
          have step: "sync_loop fault (x # xs) w = sync_loop fault xs ?w3"
            using f0 f1 f2 new
            by (simp add: fork_get_issues_def fork_get_labels_def fork_create_issue_def
                  call_def sel request_for_def Let_def)
          have unmarked: "LABEL_PREFIX \<notin> set (f_labels ?i)"
            by (simp add: request_for_def)
          have tagged: "existing_tagged ?w3 = existing_tagged w"
            using existing_tagged_created [OF unmarked, of "w\<lparr>call_log := call_log w @ [?g, ?l, ?c]\<rparr>"]
            by simp
          show ?thesis
            using Cons.IH [of ?w3] f0 f1 f2 unfolding step calls tagged
            by (simp add: split_beta)
        qed
      qed
    qed
  qed
qed

text \<open>
  The whole run likewise: it makes its planned calls up to the first fault, and prints the
  closing message exactly when no call raised.
\<close>

lemma main_run:
  "fst (main fault w) = snd (perform fault (length (call_log w)) (main_calls w))
   \<and> calls_made fault w = fst (perform fault (length (call_log w)) (main_calls w))
   \<and> existing_tagged (snd (main fault w)) = existing_tagged w
   \<and> fork_label_names (snd (main fault w)) = fork_label_names w
   \<and> upstream_repo_issues (snd (main fault w)) = upstream_repo_issues w
   \<and> stdout (snd (main fault w)) =
       (if fst (main fault w) = None then stdout w @ [''Issues synced successfully.'']
        else stdout w)"
proof -
  let ?n = "length (call_log w)"
  let ?a = "GetRepo UPSTREAM_REPO" and ?b = "GetRepo FORK_REPO"
  let ?c = "GetIssues Upstream StOpen []"
  let ?w3 = "w\<lparr>call_log := call_log w @ [?a, ?b, ?c]\<rparr>"
  let ?loop = "sync_loop fault (source_issues w) ?w3"
  show ?thesis
  proof (cases "fault ?n = None \<and> fault (Suc ?n) = None \<and> fault (Suc (Suc ?n)) = None")
    case False
    then show ?thesis
      by (auto simp add: main_def main_calls_def calls_made_def call_def
            upstream_get_issues_def split: option.splits)
  next
    case True
    have m: "main fault w =
               (case ?loop of
                  (Some e, w4) \<Rightarrow> (Some e, w4)
                | (None, w4) \<Rightarrow>
                    (None, w4\<lparr>stdout := stdout w4 @ [''Issues synced successfully.'']\<rparr>))"
      using True
      by (simp add: main_def call_def upstream_get_issues_def source_issues_def)
    have p: "perform fault ?n (main_calls w) =
               (case perform fault (Suc (Suc (Suc ?n)))
                       (loop_calls (existing_tagged w) (fork_label_names w) (source_issues w)) of
                  (ds, r) \<Rightarrow> (?a # ?b # ?c # ds, r))"
      using True by (simp add: main_calls_def split_beta)
    obtain r w4 where l: "?loop = (r, w4)"
      by (cases ?loop)
    from sync_loop_run [of fault "source_issues w" ?w3] l
    have r: "r = snd (perform fault (Suc (Suc (Suc ?n)))
                   (loop_calls (existing_tagged w) (fork_label_names w) (source_issues w)))"
      and c: "call_log w4 = call_log w @ ?a # ?b # ?c #
                fst (perform fault (Suc (Suc (Suc ?n)))
                   (loop_calls (existing_tagged w) (fork_label_names w) (source_issues w)))"
      and t: "existing_tagged w4 = existing_tagged w"
      and n: "fork_label_names w4 = fork_label_names w"
      and u: "upstream_repo_issues w4 = upstream_repo_issues w"
      and s: "stdout w4 = stdout w"
      by simp_all
    show ?thesis
    proof (cases r)
      case None
      with m l have "main fault w =
          (None, w4\<lparr>stdout := stdout w4 @ [''Issues synced successfully.'']\<rparr>)"
        by simp
      with None r c t n u s p show ?thesis
        by (simp add: calls_made_def split_beta)
    next
      case (Some e)
      with m l have "main fault w = (Some e, w4)"
        by simp
      with Some r c t n u s p show ?thesis
        by (simp add: calls_made_def split_beta)
    qed
  qed
qed

lemma perform_no_fault: "perform no_fault n cs = (cs, None)"
  by (induction cs arbitrary: n) (simp_all add: no_fault_def)

lemma perform_prefix: "prefix (fst (perform fault n cs)) cs"
  by (induction cs arbitrary: n) (simp_all add: split_beta split: option.splits)

lemma perform_before_last:
  "Suc j < length (fst (perform fault n cs)) \<Longrightarrow> fault (n + j) = None"
proof (induction cs arbitrary: n j)
  case Nil
  then show ?case by simp
next
  case (Cons c cs)
  show ?case
  proof (cases "fault n")
    case (Some e)
    with Cons.prems show ?thesis by simp
  next
    case None
    show ?thesis
    proof (cases j)
      case 0
      with None show ?thesis by simp
    next
      case (Suc k)
      with Cons.prems None have "Suc k < length (fst (perform fault (Suc n) cs))"
        by (simp add: split_beta)
      from Cons.IH [OF this] Suc show ?thesis by simp
    qed
  qed
qed

lemma perform_completes:
  "snd (perform fault n cs) = None \<Longrightarrow>
   fst (perform fault n cs) = cs \<and> (\<forall>j<length cs. fault (n + j) = None)"
proof (induction cs arbitrary: n)
  case Nil
  then show ?case by simp
next
  case (Cons c cs)
  from Cons.prems have f: "fault n = None"
    by (cases "fault n") simp_all
  with Cons.prems have "snd (perform fault (Suc n) cs) = None"
    by (simp add: split_beta)
  from Cons.IH [OF this] f show ?case
    by (auto simp add: split_beta less_Suc_eq_0_disj)
qed

lemma perform_raises:
  "snd (perform fault n cs) = Some e \<Longrightarrow>
   fst (perform fault n cs) \<noteq> [] \<and>
   fault (n + length (fst (perform fault n cs)) - 1) = Some e"
proof (induction cs arbitrary: n)
  case Nil
  then show ?case by simp
next
  case (Cons c cs)
  show ?case
  proof (cases "fault n")
    case (Some e')
    with Cons.prems show ?thesis by simp
  next
    case None
    with Cons.prems have "snd (perform fault (Suc n) cs) = Some e"
      by (simp add: split_beta)
    from Cons.IH [OF this] None show ?thesis
      by (cases "fst (perform fault (Suc n) cs)") (simp_all add: split_beta)
  qed
qed

lemma creation_requests_append:
  "creation_requests (cs @ ds) = creation_requests cs @ creation_requests ds"
  by (induction cs rule: creation_requests.induct) simp_all

lemma creation_requests_loop:
  "creation_requests (loop_calls tagged names xs) =
     map (request_for names) (filter (\<lambda>x. \<not> list_ex (\<lambda>i. f_title i = title x) tagged) xs)"
  by (induction xs) (simp_all add: loop_calls_def iteration_calls_def)

lemma calls_made_no_fault: "calls_made no_fault w = main_calls w"
  using main_run [of no_fault w] by (simp add: perform_no_fault)

lemma emitted_no_fault:
  "emitted no_fault w =
     map (request_for (fork_label_names w)) (filter (\<lambda>x. \<not> already_synced w x) (source_issues w))"
  by (simp add: emitted_def calls_made_no_fault main_calls_def creation_requests_loop
        already_synced_def)

lemma calls_made_prefix: "prefix (calls_made fault w) (calls_made no_fault w)"
  using main_run [of fault w] perform_prefix [of fault "length (call_log w)" "main_calls w"]
  by (simp add: calls_made_no_fault)

lemma emitted_prefix: "prefix (emitted fault w) (emitted no_fault w)"
proof -
  from calls_made_prefix [of fault w]
  obtain ds where "calls_made no_fault w = calls_made fault w @ ds"
    by (auto simp add: prefix_def)
  then show ?thesis
    by (simp add: emitted_def creation_requests_append)
qed

lemma emitted_subset: "set (emitted fault w) \<subseteq> set (emitted no_fault w)"
  using emitted_prefix [of fault w] by (rule set_mono_prefix)

section \<open>Properties of the synchronizer\<close>

lemmas sample_defs = repo_with_def bug_a_def bug_b_def old_bug_def tagged_copy_def
  source_issues_def existing_tagged_def select_issues_def LABEL_PREFIX_def already_synced_def

text \<open>
  Claim C1. Suppose that the title of every existing tagged issue of the fork begins with
  the marker prefix followed by a space, and that no source issue's title does. Then the
  duplicate check matches no source issue, a run that no fault interrupts emits one
  creation request for every source issue, in order, under the prefixed title, and the
  run that follows it emits the same requests again: the duplicates are recreated.
\<close>

theorem marker_prefix_never_matches:
  assumes tagged: "\<forall>i\<in>set (existing_tagged w). prefix ''[Upstream] '' (f_title i)"
    and raw: "\<forall>x\<in>set (source_issues w). \<not> prefix ''[Upstream] '' (title x)"
  shows "(\<forall>x\<in>set (source_issues w). \<not> already_synced w x)
       \<and> map r_title (emitted no_fault w) = map (\<lambda>x. ''[Upstream] '' @ title x) (source_issues w)
       \<and> emitted no_fault (snd (main no_fault w)) = emitted no_fault w"
proof -
  have none: "\<forall>x\<in>set (source_issues w). \<not> already_synced w x"
    using tagged raw by (auto simp add: already_synced_def list_ex_iff)
  then have all: "filter (\<lambda>x. \<not> already_synced w x) (source_issues w) = source_issues w"
    by simp
  have titles: "map r_title (emitted no_fault w) =
                  map (\<lambda>x. ''[Upstream] '' @ title x) (source_issues w)"
    by (simp add: emitted_no_fault all request_for_def LABEL_PREFIX_def)
  let ?w' = "snd (main no_fault w)"
  from main_run [of no_fault w]
  have t: "existing_tagged ?w' = existing_tagged w"
    and n: "fork_label_names ?w' = fork_label_names w"
    and u: "upstream_repo_issues ?w' = upstream_repo_issues w"
    by simp_all
  have again: "emitted no_fault ?w' = emitted no_fault w"
    by (simp add: emitted_no_fault already_synced_def source_issues_def t n u)
  from none titles again show ?thesis by simp
qed

theorem marker_prefix_never_matches_witness:
  "existing_tagged (repo_with [bug_a, old_bug, bug_b] [tagged_copy ''[Upstream] Bug A'' Open] [''triage''])
     = [tagged_copy ''[Upstream] Bug A'' Open]
   \<and> map title (source_issues (repo_with [bug_a, old_bug, bug_b] [tagged_copy ''[Upstream] Bug A'' Open] [''triage'']))
     = [''Bug A'', ''Bug B'']
   \<and> map r_title (emitted no_fault (repo_with [bug_a, old_bug, bug_b] [tagged_copy ''[Upstream] Bug A'' Open] [''triage'']))
     = [''[Upstream] Bug A'', ''[Upstream] Bug B'']
   \<and> emitted no_fault (snd (main no_fault (repo_with [bug_a, old_bug, bug_b] [tagged_copy ''[Upstream] Bug A'' Open] [''triage''])))
     = emitted no_fault (repo_with [bug_a, old_bug, bug_b] [tagged_copy ''[Upstream] Bug A'' Open] [''triage''])"
proof -
  let ?w = "repo_with [bug_a, old_bug, bug_b] [tagged_copy ''[Upstream] Bug A'' Open] [''triage'']"
  have t: "existing_tagged ?w = [tagged_copy ''[Upstream] Bug A'' Open]"
    by (simp add: sample_defs)
  have s: "source_issues ?w = [bug_a, bug_b]"
    by (simp add: sample_defs)
  have h1: "\<forall>i\<in>set (existing_tagged ?w). prefix ''[Upstream] '' (f_title i)"
    unfolding t by (simp add: tagged_copy_def)
  have h2: "\<forall>x\<in>set (source_issues ?w). \<not> prefix ''[Upstream] '' (title x)"
    unfolding s by (simp add: bug_a_def bug_b_def)
  from marker_prefix_never_matches [OF h1 h2] t s show ?thesis
    by (simp add: bug_a_def bug_b_def)
qed

text \<open>
  Claim C2. A source issue whose raw title is the title of an existing tagged issue of the
  fork is skipped: whatever calls fail, no run emits a creation request under the prefixed
  title of that issue, which is the title a request for it would carry.
\<close>

theorem synced_issue_is_skipped:
  assumes "x \<in> set (source_issues w)"
    and "list_ex (\<lambda>i. f_title i = title x) (existing_tagged w)"
  shows "\<forall>r\<in>set (emitted fault w). r_title r \<noteq> ''[Upstream] '' @ title x"
proof
  fix r
  assume "r \<in> set (emitted fault w)"
  with emitted_subset [of fault w] have "r \<in> set (emitted no_fault w)"
    by blast
  then obtain y where y: "\<not> already_synced w y" and r: "r = request_for (fork_label_names w) y"
    by (auto simp add: emitted_no_fault)
  from y assms(2) have "title y \<noteq> title x"
    by (auto simp add: already_synced_def)
  with r show "r_title r \<noteq> ''[Upstream] '' @ title x"
    by (simp add: request_for_def LABEL_PREFIX_def)
qed

theorem synced_issue_is_skipped_witness:
  "bug_a \<in> set (source_issues (repo_with [bug_a, bug_b] [tagged_copy ''Bug A'' Open] [''triage'', ''bug'']))
   \<and> list_ex (\<lambda>i. f_title i = title bug_a)
        (existing_tagged (repo_with [bug_a, bug_b] [tagged_copy ''Bug A'' Open] [''triage'', ''bug'']))
   \<and> map r_title (emitted no_fault (repo_with [bug_a, bug_b] [tagged_copy ''Bug A'' Open] [''triage'', ''bug'']))
       = [''[Upstream] Bug B'']
   \<and> r_title (hd (emitted no_fault (repo_with [bug_a, bug_b] [tagged_copy ''Bug A'' Open] [''triage'', ''bug''])))
       \<noteq> ''[Upstream] '' @ title bug_a"
proof -
  let ?w = "repo_with [bug_a, bug_b] [tagged_copy ''Bug A'' Open] [''triage'', ''bug'']"
  have h1: "bug_a \<in> set (source_issues ?w)"
    by (simp add: sample_defs)
  have h2: "list_ex (\<lambda>i. f_title i = title bug_a) (existing_tagged ?w)"
    by (simp add: sample_defs)
  have e: "map r_title (emitted no_fault ?w) = [''[Upstream] Bug B'']"
    by code_simp
  then have "emitted no_fault ?w \<noteq> []"
    by auto
  then have m: "hd (emitted no_fault ?w) \<in> set (emitted no_fault ?w)"
    by (rule hd_in_set)
  note c = synced_issue_is_skipped [OF h1 h2, of no_fault, THEN bspec, OF m]
  from h1 h2 e c show ?thesis
    by (intro conjI)
qed

text \<open>
  Claim C3. A run that no fault interrupts emits exactly one creation request for each
  source issue whose raw title is the title of no existing tagged issue, in the order of
  the source issues and for no other issue. The request's title is the marker prefix, a
  space and the source title; its body is the line with the source URL, an empty line and
  the source body as an f-string prints it.
\<close>

theorem unsynced_issues_are_created:
  "emitted no_fault w =
     map (\<lambda>x. \<lparr>r_title = ''[Upstream] '' @ title x,
               r_body = ''**Original Issue:** '' @ html_url x @ [CHR 0x0A, CHR 0x0A]
                          @ (case body x of None \<Rightarrow> ''None'' | Some b \<Rightarrow> b),
               r_labels = (if ''triage'' \<in> set (fork_label_names w) then [''triage''] else [])\<rparr>)
         (filter (\<lambda>x. \<not> list_ex (\<lambda>i. f_title i = title x) (existing_tagged w)) (source_issues w))"
proof -
  have "request_for (fork_label_names w) =
          (\<lambda>x. \<lparr>r_title = ''[Upstream] '' @ title x,
               r_body = ''**Original Issue:** '' @ html_url x @ [CHR 0x0A, CHR 0x0A]
                          @ (case body x of None \<Rightarrow> ''None'' | Some b \<Rightarrow> b),
               r_labels = (if ''triage'' \<in> set (fork_label_names w) then [''triage''] else [])\<rparr>)"
  proof
    fix x
    show "request_for (fork_label_names w) x =
          \<lparr>r_title = ''[Upstream] '' @ title x,
               r_body = ''**Original Issue:** '' @ html_url x @ [CHR 0x0A, CHR 0x0A]
                          @ (case body x of None \<Rightarrow> ''None'' | Some b \<Rightarrow> b),
               r_labels = (if ''triage'' \<in> set (fork_label_names w) then [''triage''] else [])\<rparr>"
      by (cases "body x") (simp_all add: request_for_def LABEL_PREFIX_def)
  qed
  then show ?thesis
    by (simp add: emitted_no_fault already_synced_def)
qed

theorem unsynced_issues_are_created_witness:
  "emitted no_fault (repo_with [bug_a, bug_b] [tagged_copy ''Bug A'' Open] [''triage'', ''bug'']) =
     [\<lparr>r_title = ''[Upstream] Bug B'',
       r_body = ''**Original Issue:** https://github.com/ssc-spc-ccoe-cei/azure-guardrails-solution-accelerator/issues/2''
                  @ [CHR 0x0A, CHR 0x0A] @ ''None'',
       r_labels = [''triage'']\<rparr>]"
  using unsynced_issues_are_created
          [of "repo_with [bug_a, bug_b] [tagged_copy ''Bug A'' Open] [''triage'', ''bug'']"]
  by (simp add: sample_defs)

text \<open>
  Claim C4. Whatever calls fail, every creation request of a run carries the one label
  triage when triage is among the label names of the fork, and no label when it is not.
\<close>

theorem triage_is_the_only_label:
  "\<forall>r\<in>set (emitted fault w).
     r_labels r = (if ''triage'' \<in> set (fork_label_names w) then [''triage''] else [])"
proof
  fix r
  assume "r \<in> set (emitted fault w)"
  with emitted_subset [of fault w] have "r \<in> set (emitted no_fault w)"
    by blast
  then show "r_labels r = (if ''triage'' \<in> set (fork_label_names w) then [''triage''] else [])"
    by (auto simp add: emitted_no_fault request_for_def)
qed

theorem triage_is_the_only_label_witness:
  "emitted no_fault (repo_with [bug_a, bug_b] [] [''triage'', ''bug'']) \<noteq> []
   \<and> r_labels (hd (emitted no_fault (repo_with [bug_a, bug_b] [] [''triage'', ''bug'']))) = [''triage'']
   \<and> emitted no_fault (repo_with [bug_a, bug_b] [] [''bug'']) \<noteq> []
   \<and> r_labels (hd (emitted no_fault (repo_with [bug_a, bug_b] [] [''bug'']))) = []"
proof -
  let ?w = "repo_with [bug_a, bug_b] [] [''triage'', ''bug'']"
  let ?v = "repo_with [bug_a, bug_b] [] [''bug'']"
  have w: "emitted no_fault ?w \<noteq> []"
    by code_simp
  have v: "emitted no_fault ?v \<noteq> []"
    by code_simp
  from triage_is_the_only_label [of no_fault ?w, THEN bspec, OF hd_in_set [OF w]]
  have lw: "r_labels (hd (emitted no_fault ?w)) = [''triage'']"
    by (simp add: repo_with_def)
  from triage_is_the_only_label [of no_fault ?v, THEN bspec, OF hd_in_set [OF v]]
  have lv: "r_labels (hd (emitted no_fault ?v)) = []"
    by (simp add: repo_with_def)
  from w lw v lv show ?thesis
    by (intro conjI)
qed

lemma times_called_append:
  "times_called c (cs @ ds) = times_called c cs + times_called c ds"
  by (simp add: times_called_def)

lemma listings_in_loop:
  "times_called (GetIssues Fork StAll [LABEL_PREFIX]) (loop_calls tagged names xs) = length xs"
  by (induction xs) (simp_all add: loop_calls_def iteration_calls_def times_called_def)

lemma label_reads_in_loop:
  "times_called (GetLabels Fork) (loop_calls tagged names xs) =
     length (filter (\<lambda>x. \<not> list_ex (\<lambda>i. f_title i = title x) tagged) xs)"
  by (induction xs) (simp_all add: loop_calls_def iteration_calls_def times_called_def)

text \<open>
  Claim C5, as the code has it. In a run that no fault interrupts, the tagged issues of
  the fork are listed once for every source issue. The labels of the fork are read once
  for every source issue that is not skipped, that is, once for every creation request:
  the read comes after the duplicate check, so a skipped issue causes none.
\<close>

theorem reads_per_source_issue:
  "times_called (GetIssues Fork StAll [''[Upstream]'']) (calls_made no_fault w)
     = length (source_issues w)
   \<and> times_called (GetLabels Fork) (calls_made no_fault w)
     = length (filter (\<lambda>x. \<not> already_synced w x) (source_issues w))
   \<and> times_called (GetLabels Fork) (calls_made no_fault w) = length (emitted no_fault w)"
proof -
  have a: "times_called (GetIssues Fork StAll [''[Upstream]'']) (calls_made no_fault w)
             = length (source_issues w)"
    using listings_in_loop [of "existing_tagged w" "fork_label_names w" "source_issues w"]
    by (simp add: calls_made_no_fault main_calls_def times_called_append)
       (simp add: times_called_def LABEL_PREFIX_def)
  have b: "times_called (GetLabels Fork) (calls_made no_fault w)
             = length (filter (\<lambda>x. \<not> already_synced w x) (source_issues w))"
    using label_reads_in_loop [of "existing_tagged w" "fork_label_names w" "source_issues w"]
    by (simp add: calls_made_no_fault main_calls_def times_called_append already_synced_def)
       (simp add: times_called_def)
  from a b show ?thesis
    by (simp add: emitted_no_fault)
qed

theorem reads_per_source_issue_witness:
  "times_called (GetIssues Fork StAll [''[Upstream]''])
     (calls_made no_fault (repo_with [bug_a, bug_b] [tagged_copy ''Bug A'' Open] [''triage'', ''bug''])) = 2
   \<and> times_called (GetLabels Fork)
     (calls_made no_fault (repo_with [bug_a, bug_b] [tagged_copy ''Bug A'' Open] [''triage'', ''bug''])) = 1
   \<and> length (emitted no_fault (repo_with [bug_a, bug_b] [tagged_copy ''Bug A'' Open] [''triage'', ''bug''])) = 1"
  using reads_per_source_issue
          [of "repo_with [bug_a, bug_b] [tagged_copy ''Bug A'' Open] [''triage'', ''bug'']"]
  by (simp add: sample_defs)

text \<open>
  With two source issues of which the first is already in the fork, the labels are read
  once, not twice.
\<close>

theorem label_read_skipped_with_issue_counterexample:
  "times_called (GetLabels Fork)
     (calls_made no_fault (repo_with [bug_a, bug_b] [tagged_copy ''Bug A'' Open] [''triage'', ''bug'']))
   \<noteq> length (source_issues (repo_with [bug_a, bug_b] [tagged_copy ''Bug A'' Open] [''triage'', ''bug'']))"
  by code_simp

text \<open>
  Claim C6. No error of a call is caught. Under any fault plan the calls of a run are an
  initial segment of the calls of the fault-free run, and none but the last of them
  raises. When the run ends in an error, that error is the one its last call raised, so
  nothing, and in particular no creation request, follows the first fault, and the closing
  message is not printed. When the run ends without an error, it made all its calls, none
  of which raised, and printed the closing message.
\<close>

theorem first_fault_ends_run:
  "prefix (calls_made fault w) (calls_made no_fault w)
   \<and> (\<forall>j. Suc j < length (calls_made fault w) \<longrightarrow> fault (length (call_log w) + j) = None)
   \<and> (case fst (main fault w) of
        None \<Rightarrow>
          calls_made fault w = calls_made no_fault w
          \<and> (\<forall>j<length (calls_made fault w). fault (length (call_log w) + j) = None)
          \<and> stdout (snd (main fault w)) = stdout w @ [''Issues synced successfully.'']
      | Some e \<Rightarrow>
          calls_made fault w \<noteq> []
          \<and> fault (length (call_log w) + length (calls_made fault w) - 1) = Some e
          \<and> stdout (snd (main fault w)) = stdout w)"
proof -
  let ?n = "length (call_log w)"
  let ?p = "perform fault ?n (main_calls w)"
  from main_run [of fault w]
  have r: "fst (main fault w) = snd ?p"
    and c: "calls_made fault w = fst ?p"
    and s: "stdout (snd (main fault w)) =
              (if fst (main fault w) = None then stdout w @ [''Issues synced successfully.'']
               else stdout w)"
    by simp_all
  have before: "\<forall>j. Suc j < length (calls_made fault w) \<longrightarrow> fault (?n + j) = None"
    unfolding c using perform_before_last [of _ fault ?n "main_calls w"] by blast
  have outcome: "case fst (main fault w) of
        None \<Rightarrow>
          calls_made fault w = calls_made no_fault w
          \<and> (\<forall>j<length (calls_made fault w). fault (?n + j) = None)
          \<and> stdout (snd (main fault w)) = stdout w @ [''Issues synced successfully.'']
      | Some e \<Rightarrow>
          calls_made fault w \<noteq> []
          \<and> fault (?n + length (calls_made fault w) - 1) = Some e
          \<and> stdout (snd (main fault w)) = stdout w"
  proof (cases "fst (main fault w)")
    case None
    with r have "snd ?p = None" by simp
    from perform_completes [OF this] None c s show ?thesis
      by (simp add: calls_made_no_fault)
  next
    case (Some e)
    with r have "snd ?p = Some e" by simp
    from perform_raises [OF this] Some c s show ?thesis
      by simp
  qed
  from calls_made_prefix [of fault w] before outcome show ?thesis
    by blast
qed

theorem first_fault_ends_run_witness:
  "fst (main (fault_at 4 RateLimitExceeded) (repo_with [bug_a, bug_b] [] [''triage'', ''bug'']))
     = Some RateLimitExceeded
   \<and> calls_made (fault_at 4 RateLimitExceeded) (repo_with [bug_a, bug_b] [] [''triage'', ''bug''])
     = [GetRepo UPSTREAM_REPO, GetRepo FORK_REPO, GetIssues Upstream StOpen [],
        GetIssues Fork StAll [LABEL_PREFIX], GetLabels Fork]
   \<and> emitted (fault_at 4 RateLimitExceeded) (repo_with [bug_a, bug_b] [] [''triage'', ''bug'']) = []
   \<and> fault_at 4 RateLimitExceeded
        (length (call_log (repo_with [bug_a, bug_b] [] [''triage'', ''bug'']))
         + length (calls_made (fault_at 4 RateLimitExceeded)
                     (repo_with [bug_a, bug_b] [] [''triage'', ''bug''])) - 1)
       = Some RateLimitExceeded
   \<and> stdout (snd (main (fault_at 4 RateLimitExceeded) (repo_with [bug_a, bug_b] [] [''triage'', ''bug''])))
       = stdout (repo_with [bug_a, bug_b] [] [''triage'', ''bug''])
   \<and> prefix (calls_made (fault_at 4 RateLimitExceeded) (repo_with [bug_a, bug_b] [] [''triage'', ''bug'']))
        (calls_made no_fault (repo_with [bug_a, bug_b] [] [''triage'', ''bug'']))"
proof -
  let ?f = "fault_at 4 RateLimitExceeded"
  let ?w = "repo_with [bug_a, bug_b] [] [''triage'', ''bug'']"
  have r: "fst (main ?f ?w) = Some RateLimitExceeded"
    by code_simp
  have c: "calls_made ?f ?w =
             [GetRepo UPSTREAM_REPO, GetRepo FORK_REPO, GetIssues Upstream StOpen [],
              GetIssues Fork StAll [LABEL_PREFIX], GetLabels Fork]"
    by code_simp
  have e: "emitted ?f ?w = []"
    by code_simp
  note t = first_fault_ends_run [of ?f ?w, unfolded r option.case]
  from t have p: "prefix (calls_made ?f ?w) (calls_made no_fault ?w)"
    by (elim conjE)
  from t have l: "?f (length (call_log ?w) + length (calls_made ?f ?w) - 1) = Some RateLimitExceeded"
    by (elim conjE)
  from t have s: "stdout (snd (main ?f ?w)) = stdout ?w"
    by (elim conjE)
  from r c e l s p show ?thesis
    by (intro conjI)
qed

text \<open>
  Claim C7. With the source issues titled Bug A and Bug B, no tagged issue in the fork and
  the fork's labels triage and bug, a run that no fault interrupts emits exactly two
  creation requests, titled [Upstream] Bug A and [Upstream] Bug B in this order, each with
  the label triage alone.
\<close>

theorem scenario_two_new_issues:
  assumes "map title (source_issues w) = [''Bug A'', ''Bug B'']"
    and "existing_tagged w = []"
    and "fork_label_names w = [''triage'', ''bug'']"
  shows "map (\<lambda>r. (r_title r, r_labels r)) (emitted no_fault w) =
           [(''[Upstream] Bug A'', [''triage'']), (''[Upstream] Bug B'', [''triage''])]"
proof -
  from assms(1) obtain a b where s: "source_issues w = [a, b]"
    and a: "title a = ''Bug A''" and b: "title b = ''Bug B''"
    by (auto simp add: map_eq_Cons_conv)
  show ?thesis
    by (simp add: emitted_no_fault already_synced_def assms(2,3) s a b request_for_def
          LABEL_PREFIX_def)
qed

theorem scenario_two_new_issues_witness:
  "map title (source_issues (repo_with [bug_a, bug_b] [] [''triage'', ''bug''])) = [''Bug A'', ''Bug B'']
   \<and> existing_tagged (repo_with [bug_a, bug_b] [] [''triage'', ''bug'']) = []
   \<and> fork_label_names (repo_with [bug_a, bug_b] [] [''triage'', ''bug'']) = [''triage'', ''bug'']
   \<and> map (\<lambda>r. (r_title r, r_labels r)) (emitted no_fault (repo_with [bug_a, bug_b] [] [''triage'', ''bug''])) =
       [(''[Upstream] Bug A'', [''triage'']), (''[Upstream] Bug B'', [''triage''])]"
proof -
  let ?w = "repo_with [bug_a, bug_b] [] [''triage'', ''bug'']"
  have h1: "map title (source_issues ?w) = [''Bug A'', ''Bug B'']"
    by (simp add: sample_defs)
  have h2: "existing_tagged ?w = []"
    by (simp add: sample_defs)
  have h3: "fork_label_names ?w = [''triage'', ''bug'']"
    by (simp add: repo_with_def)
  from h1 h2 h3 scenario_two_new_issues [OF h1 h2 h3] show ?thesis
    by (intro conjI)
qed

text \<open>
  Claim C8. In a run that no fault interrupts, the k-th request belongs to the k-th source
  issue that is not skipped. When the body of that issue is null, the body of the request
  ends in the text None after the URL line and the empty line, not in the empty string.
\<close>

theorem null_body_is_formatted_as_None:
  assumes "ys = filter (\<lambda>x. \<not> already_synced w x) (source_issues w)"
    and "k < length ys"
    and "body (ys ! k) = None"
  shows "length (emitted no_fault w) = length ys
       \<and> r_title (emitted no_fault w ! k) = ''[Upstream] '' @ title (ys ! k)
       \<and> r_body (emitted no_fault w ! k) =
           ''**Original Issue:** '' @ html_url (ys ! k) @ [CHR 0x0A, CHR 0x0A] @ ''None''"
proof -
  have e: "emitted no_fault w = map (request_for (fork_label_names w)) ys"
    by (simp add: emitted_no_fault assms(1))
  with assms(2,3) show ?thesis
    by (simp add: request_for_def LABEL_PREFIX_def)
qed

theorem null_body_is_formatted_as_None_witness:
  "filter (\<lambda>x. \<not> already_synced (repo_with [bug_a, bug_b] [] []) x)
      (source_issues (repo_with [bug_a, bug_b] [] [])) = [bug_a, bug_b]
   \<and> body ([bug_a, bug_b] ! 1) = None
   \<and> length (emitted no_fault (repo_with [bug_a, bug_b] [] [])) = 2
   \<and> r_body (emitted no_fault (repo_with [bug_a, bug_b] [] []) ! 1) =
       ''**Original Issue:** https://github.com/ssc-spc-ccoe-cei/azure-guardrails-solution-accelerator/issues/2''
         @ [CHR 0x0A, CHR 0x0A] @ ''None''"
proof -
  let ?w = "repo_with [bug_a, bug_b] [] []"
  have h1: "[bug_a, bug_b] = filter (\<lambda>x. \<not> already_synced ?w x) (source_issues ?w)"
    by (simp add: sample_defs)
  have h2: "1 < length [bug_a, bug_b]"
    by simp
  have h3: "body ([bug_a, bug_b] ! 1) = None"
    by (simp add: bug_b_def)
  from null_body_is_formatted_as_None [OF h1 h2 h3] h1 h3 show ?thesis
    by (simp add: bug_b_def)
qed

text \<open>
  Claim C9. The duplicate check lists the fork's issues of either state. A closed issue of
  the fork that carries the marker label and has the raw title of a source issue is among
  the listed issues, and no run emits a creation request under the prefixed title of that
  source issue.
\<close>

theorem closed_tagged_issue_suppresses:
  assumes "x \<in> set (source_issues w)"
    and "i \<in> set (fork_issues w)"
    and "f_state i = Closed"
    and "''[Upstream]'' \<in> set (f_labels i)"
    and "f_title i = title x"
  shows "i \<in> set (existing_tagged w)
       \<and> (\<forall>r\<in>set (emitted fault w). r_title r \<noteq> ''[Upstream] '' @ title x)"
proof -
  from assms(2,4) have listed: "i \<in> set (existing_tagged w)"
    by (simp add: existing_tagged_def select_issues_def LABEL_PREFIX_def)
  with assms(5) have synced: "already_synced w x"
    by (auto simp add: already_synced_def list_ex_iff)
  have "r_title r \<noteq> ''[Upstream] '' @ title x" if "r \<in> set (emitted fault w)" for r
  proof -
    from that emitted_subset [of fault w] have "r \<in> set (emitted no_fault w)"
      by blast
    then obtain y where y: "\<not> already_synced w y"
      and r: "r = request_for (fork_label_names w) y"
      by (auto simp add: emitted_no_fault)
    from y synced have "title y \<noteq> title x"
      by (auto simp add: already_synced_def)
    with r show ?thesis
      by (simp add: request_for_def LABEL_PREFIX_def)
  qed
  with listed show ?thesis by blast
qed

theorem closed_tagged_issue_suppresses_witness:
  "bug_a \<in> set (source_issues (repo_with [bug_a, bug_b] [tagged_copy ''Bug A'' Closed] []))
   \<and> tagged_copy ''Bug A'' Closed \<in> set (fork_issues (repo_with [bug_a, bug_b] [tagged_copy ''Bug A'' Closed] []))
   \<and> f_state (tagged_copy ''Bug A'' Closed) = Closed
   \<and> ''[Upstream]'' \<in> set (f_labels (tagged_copy ''Bug A'' Closed))
   \<and> f_title (tagged_copy ''Bug A'' Closed) = title bug_a
   \<and> map r_title (emitted no_fault (repo_with [bug_a, bug_b] [tagged_copy ''Bug A'' Closed] []))
       = [''[Upstream] Bug B'']
   \<and> r_title (hd (emitted no_fault (repo_with [bug_a, bug_b] [tagged_copy ''Bug A'' Closed] [])))
       \<noteq> ''[Upstream] '' @ title bug_a"
proof -
  let ?w = "repo_with [bug_a, bug_b] [tagged_copy ''Bug A'' Closed] []"
  let ?i = "tagged_copy ''Bug A'' Closed"
  have h1: "bug_a \<in> set (source_issues ?w)"
    by (simp add: sample_defs)
  have h2: "?i \<in> set (fork_issues ?w)"
    by (simp add: repo_with_def)
  have h3: "f_state ?i = Closed"
    by (simp add: tagged_copy_def)
  have h4: "''[Upstream]'' \<in> set (f_labels ?i)"
    by (simp add: tagged_copy_def)
  have h5: "f_title ?i = title bug_a"
    by (simp add: tagged_copy_def bug_a_def)
  have e: "map r_title (emitted no_fault ?w) = [''[Upstream] Bug B'']"
    by code_simp
  then have "emitted no_fault ?w \<noteq> []"
    by auto
  then have m: "hd (emitted no_fault ?w) \<in> set (emitted no_fault ?w)"
    by (rule hd_in_set)
  note c = closed_tagged_issue_suppresses [OF h1 h2 h3 h4 h5, of no_fault,
             THEN conjunct2, THEN bspec, OF m]
  from h1 h2 h3 h4 h5 e c show ?thesis
    by (intro conjI)
qed

lemma two_hits:
  assumes "i < j" and "j < length xs" and "P (xs ! i)" and "P (xs ! j)"
  shows "2 \<le> length (filter P xs)"
proof -
  have xs: "xs = take j xs @ xs ! j # drop (Suc j) xs"
    using assms(2) by (rule id_take_nth_drop)
  from assms(1,2) have "xs ! i \<in> set (take j xs)"
    by (auto simp add: in_set_conv_nth intro!: exI [of _ i])
  with assms(3) have "filter P (take j xs) \<noteq> []"
    by (auto simp add: filter_empty_conv)
  then have "1 \<le> length (filter P (take j xs))"
    by (cases "filter P (take j xs)") simp_all
  moreover have "length (filter P xs) =
      length (filter P (take j xs)) + length (filter P (xs ! j # drop (Suc j) xs))"
    by (subst xs) simp
  ultimately show ?thesis
    using assms(4) by simp
qed

text \<open>
  Claim C10. When two source issues share a title that no existing tagged issue of the
  fork has, a run that no fault interrupts emits as many creation requests under the
  prefixed title as there are source issues of that title, hence at least two: an issue
  created earlier in the run does not suppress a later one of the same title.
\<close>

theorem same_title_twice_is_created_twice:
  assumes "i < j" and "j < length (source_issues w)"
    and "title (source_issues w ! i) = t" and "title (source_issues w ! j) = t"
    and "\<not> list_ex (\<lambda>e. f_title e = t) (existing_tagged w)"
  shows "length (filter (\<lambda>r. r_title r = ''[Upstream] '' @ t) (emitted no_fault w))
           = length (filter (\<lambda>x. title x = t) (source_issues w))
       \<and> 2 \<le> length (filter (\<lambda>r. r_title r = ''[Upstream] '' @ t) (emitted no_fault w))"
proof -
  have sel: "filter (\<lambda>x. \<not> already_synced w x \<and> title x = t) (source_issues w)
               = filter (\<lambda>x. title x = t) (source_issues w)"
    using assms(5) by (auto simp add: already_synced_def intro!: filter_cong)
  have count: "length (filter (\<lambda>r. r_title r = ''[Upstream] '' @ t) (emitted no_fault w))
                 = length (filter (\<lambda>x. title x = t) (source_issues w))"
    by (simp add: emitted_no_fault filter_map comp_def request_for_def LABEL_PREFIX_def
          sel)
  from two_hits [of i j "source_issues w" "\<lambda>x. title x = t"] assms(1-4)
  have "2 \<le> length (filter (\<lambda>x. title x = t) (source_issues w))"
    by simp
  with count show ?thesis by simp
qed

theorem same_title_twice_is_created_twice_witness:
  "title (source_issues (repo_with [bug_a, bug_b, bug_a] [] [''triage'']) ! 0) = ''Bug A''
   \<and> title (source_issues (repo_with [bug_a, bug_b, bug_a] [] [''triage'']) ! 2) = ''Bug A''
   \<and> \<not> list_ex (\<lambda>e. f_title e = ''Bug A'') (existing_tagged (repo_with [bug_a, bug_b, bug_a] [] [''triage'']))
   \<and> 2 \<le> length (filter (\<lambda>r. r_title r = ''[Upstream] '' @ ''Bug A'')
               (emitted no_fault (repo_with [bug_a, bug_b, bug_a] [] [''triage''])))
   \<and> map r_title (emitted no_fault (repo_with [bug_a, bug_b, bug_a] [] [''triage'']))
       = [''[Upstream] Bug A'', ''[Upstream] Bug B'', ''[Upstream] Bug A'']"
proof -
  let ?w = "repo_with [bug_a, bug_b, bug_a] [] [''triage'']"
  have s: "source_issues ?w = [bug_a, bug_b, bug_a]"
    by (simp add: sample_defs)
  have h1: "(0::nat) < 2"
    by simp
  have h2: "2 < length (source_issues ?w)"
    unfolding s by simp
  have h3: "title (source_issues ?w ! 0) = ''Bug A''"
    unfolding s by (simp add: bug_a_def)
  have h4: "title (source_issues ?w ! 2) = ''Bug A''"
    unfolding s by (simp add: bug_a_def)
  have h5: "\<not> list_ex (\<lambda>e. f_title e = ''Bug A'') (existing_tagged ?w)"
    by (simp add: sample_defs)
  have e: "map r_title (emitted no_fault ?w)
             = [''[Upstream] Bug A'', ''[Upstream] Bug B'', ''[Upstream] Bug A'']"
    by code_simp
  note c = same_title_twice_is_created_twice [OF h1 h2 h3 h4 h5, THEN conjunct2]
  from h3 h4 h5 c e show ?thesis
    by (intro conjI)
qed

end
